theory Spec2Isabelle
  imports Complex_Main
begin

section \<open>The rate map and its reducer (src/src/App.tsx)\<close>

text \<open>
  The TypeScript enum \<open>CurrencyRateState\<close> and the interface \<open>CurrencyRate\<close>.
  The reducer only copies numbers, it never computes with them, so the number type is a
  parameter \<open>'n\<close>. At run time a property of an entry can be \<open>undefined\<close> (the reducer
  spreads \<open>prev[id]\<close>, which is \<open>undefined\<close> for a key that is not in the map), so each
  field holds an option: \<open>None\<close> is \<open>undefined\<close>.
\<close>

datatype CurrencyRateState = ACCEPTED | DIRTY | IN_PROGRESS

record 'n CurrencyRate =
  rate :: "'n option"
  state :: "CurrencyRateState option"
  confirmedRate :: "'n option"

type_synonym 'n rates = "string \<rightharpoonup> 'n CurrencyRate"

datatype 'n RatesAction =
    EditCurrencyRate string 'n
  | StartIsValidRequest string
  | IsValidResult string bool

text \<open>
  Reading a property of \<open>undefined\<close> throws a TypeError. \<open>NoSuchEvent\<close> is not an
  error of the program: it marks, in a run of the provider, an event that cannot happen
  in the state.
\<close>

datatype error = TypeError | NoSuchEvent

text \<open>
  \<open>initialCurrencyRates\<close> is imported from \<open>./utils\<close>; it is a parameter here, a map
  from currency code to seed rate.
\<close>

definition initialCurrencyRatesState :: "(string \<rightharpoonup> 'n) \<Rightarrow> 'n rates" where
  "initialCurrencyRatesState initialCurrencyRates =
     (\<lambda>cid. case initialCurrencyRates cid of
        None \<Rightarrow> None
      | Some r \<Rightarrow> Some \<lparr>rate = Some r, state = Some ACCEPTED, confirmedRate = Some r\<rparr>)"

text \<open>
  The map is a plain object, so a read \<open>prev[id]\<close> of a key it does not own goes to
  \<open>Object.prototype\<close>: for the names below it gives an inherited value (a function, or
  the prototype itself) and not \<open>undefined\<close>. Such a value has none of the properties of
  an entry and spreads to nothing, so it is read here as the entry without properties.
\<close>

definition inheritedProperty :: "string \<Rightarrow> bool" where
  "inheritedProperty k =
     (k \<in> set [''constructor'', ''hasOwnProperty'', ''isPrototypeOf'',
               ''propertyIsEnumerable'', ''toLocaleString'', ''toString'', ''valueOf'',
               ''__proto__'', ''__defineGetter__'', ''__defineSetter__'',
               ''__lookupGetter__'', ''__lookupSetter__''])"

definition noProperties :: "'n CurrencyRate" where
  "noProperties = \<lparr>rate = None, state = None, confirmedRate = None\<rparr>"

definition getEntry :: "'n rates \<Rightarrow> string \<Rightarrow> 'n CurrencyRate option" where
  "getEntry prev cid =
     (case prev cid of
        Some e \<Rightarrow> Some e
      | None \<Rightarrow> if inheritedProperty cid then Some noProperties else None)"

text \<open>The object spread \<open>{...x}\<close>: every property of \<open>x\<close>, none when \<open>x\<close> is \<open>undefined\<close>.\<close>

definition spread :: "'n CurrencyRate option \<Rightarrow> 'n CurrencyRate" where
  "spread x = (case x of None \<Rightarrow> noProperties | Some e \<Rightarrow> e)"

fun ratesReducer :: "'n rates \<Rightarrow> 'n RatesAction \<Rightarrow> error + 'n rates" where
  "ratesReducer prev (EditCurrencyRate cid r) =
     Inr (prev(cid \<mapsto> (spread (getEntry prev cid))\<lparr>rate := Some r, state := Some DIRTY\<rparr>))"
| "ratesReducer prev (StartIsValidRequest cid) =
     Inr (prev(cid \<mapsto> (spread (getEntry prev cid))\<lparr>state := Some IN_PROGRESS\<rparr>))"
| "ratesReducer prev (IsValidResult cid result) =
     (case getEntry prev cid of
        None \<Rightarrow> Inl TypeError
      | Some previousState \<Rightarrow>
          (let newRate = (if result then rate previousState else confirmedRate previousState)
           in Inr (prev(cid \<mapsto>
                 previousState\<lparr>state := Some ACCEPTED, rate := newRate,
                                confirmedRate := newRate\<rparr>))))"

text \<open>The currency id an action names (\<open>action.payload.id\<close>, or \<open>action.payload\<close>).\<close>

fun target :: "'n RatesAction \<Rightarrow> string" where
  "target (EditCurrencyRate cid r) = cid"
| "target (StartIsValidRequest cid) = cid"
| "target (IsValidResult cid result) = cid"

text \<open>A sequence of dispatched actions; a throw ends it.\<close>

fun reduceAll :: "'n rates \<Rightarrow> 'n RatesAction list \<Rightarrow> error + 'n rates" where
  "reduceAll s [] = Inr s"
| "reduceAll s (a # as) =
     (case ratesReducer s a of Inl e \<Rightarrow> Inl e | Inr s' \<Rightarrow> reduceAll s' as)"

text \<open>\<open>currencyRates[id]?.confirmedRate\<close>: what a reader of the map sees for a key.\<close>

definition confirmedRateOf :: "'n rates \<Rightarrow> string \<Rightarrow> 'n option" where
  "confirmedRateOf s cid = (case s cid of None \<Rightarrow> None | Some e \<Rightarrow> confirmedRate e)"

text \<open>The invariant of the data model: an accepted entry shows its confirmed rate.\<close>

definition accepted_converged :: "'n rates \<Rightarrow> bool" where
  "accepted_converged s =
     (\<forall>cid e. s cid = Some e \<longrightarrow> state e = Some ACCEPTED \<longrightarrow> rate e = confirmedRate e)"

section \<open>The order total (OrderTotal)\<close>

text \<open>
  Modelled from the spec: the interface \<open>Order\<close> is declared in \<open>./utils\<close>, which is
  not among the sources. The spec gives an order an id, a title, a price and a currency
  code, and \<open>App.tsx\<close> reads \<open>order.id\<close>, \<open>order.title\<close>, \<open>order.price\<close> and
  \<open>order.currency\<close>.
\<close>

record 'n Order =
  orderId :: string
  title :: string
  price :: 'n
  currency :: string

text \<open>
  A \<open>Record<string, Order>\<close> as the list of its entries in enumeration order, which is
  the order \<open>Object.values\<close> follows.
\<close>

definition Object_values :: "(string \<times> 'v) list \<Rightarrow> 'v list" where
  "Object_values obj = map snd obj"

text \<open>
  The \<open>.map\<close> of \<open>OrderTotal\<close>. \<open>getBaseCurrencyPrice\<close> is imported from \<open>./utils\<close> and is
  a parameter; its second argument is what the read of \<open>.confirmedRate\<close> gave, \<open>None\<close> when
  the entry has no such property. When \<open>currencyRates[order.currency]\<close> is \<open>undefined\<close>
  the read of its property throws.
\<close>

fun basePrices ::
  "('n \<Rightarrow> 'n option \<Rightarrow> 'n) \<Rightarrow> 'n rates \<Rightarrow> 'n Order list \<Rightarrow> error + 'n list" where
  "basePrices getBaseCurrencyPrice currencyRates [] = Inr []"
| "basePrices getBaseCurrencyPrice currencyRates (order # orders) =
     (case getEntry currencyRates (currency order) of
        None \<Rightarrow> Inl TypeError
      | Some e \<Rightarrow>
          (case basePrices getBaseCurrencyPrice currencyRates orders of
             Inl x \<Rightarrow> Inl x
           | Inr ps \<Rightarrow> Inr (getBaseCurrencyPrice (price order) (confirmedRate e) # ps)))"

text \<open>
  \<open>.reduce((a, b) => a + b, 0)\<close> adds from the left, starting at 0. Nothing is assumed
  of \<open>+\<close> and \<open>0\<close> here: the number type only has to have them.
\<close>

definition OrderTotal ::
  "('n \<Rightarrow> 'n option \<Rightarrow> 'n) \<Rightarrow> (string \<times> 'n Order) list \<Rightarrow> 'n rates
     \<Rightarrow> error + ('n::{zero,plus})" where
  "OrderTotal getBaseCurrencyPrice orders currencyRates =
     (case basePrices getBaseCurrencyPrice currencyRates (Object_values orders) of
        Inl x \<Rightarrow> Inl x
      | Inr ps \<Rightarrow> Inr (foldl (\<lambda>a b. a + b) 0 ps))"

text \<open>
  Modelled from the spec: \<open>getBaseCurrencyPrice\<close> is defined in \<open>./utils\<close>, which is not
  among the sources. The spec's order total (price 10 in a currency whose confirmed rate
  is 2 is worth 20 in the base currency) makes it the price times the rate.
\<close>

definition getBaseCurrencyPrice :: "'n::times \<Rightarrow> 'n \<Rightarrow> 'n" where
  "getBaseCurrencyPrice price' currencyRate = price' * currencyRate"

section \<open>The keyed debounce (useKeyedDebounce)\<close>

text \<open>
  The host's timers (\<open>setTimeout\<close>, \<open>clearTimeout\<close>). A pending timeout has the handle
  \<open>setTimeout\<close> returned, the time it is due, and what its callback
  \<open>() => fn(id, ...args)\<close> captured. Handles are the positive integers, handed out in
  increasing order; the table lists the pending timeouts in the order of their creation.
\<close>

record 'a timer =
  handle :: nat
  due :: nat
  key :: string
  args :: 'a

text \<open>
  \<open>debounceStates\<close> is the ref of \<open>useKeyedDebounce\<close>: the last handle stored for each
  id. It is never cleared, so it may name a timeout that has fired already.
\<close>

record 'a debounce =
  debounceStates :: "string \<rightharpoonup> nat"
  timers :: "'a timer list"
  nextHandle :: nat

definition setTimeout :: "'a debounce \<Rightarrow> nat \<Rightarrow> string \<Rightarrow> 'a \<Rightarrow> nat \<times> 'a debounce" where
  "setTimeout d t cid a =
     (nextHandle d,
      d\<lparr>timers := timers d @ [\<lparr>handle = nextHandle d, due = t, key = cid, args = a\<rparr>],
        nextHandle := Suc (nextHandle d)\<rparr>)"

definition clearTimeout :: "'a debounce \<Rightarrow> nat \<Rightarrow> 'a debounce" where
  "clearTimeout d h = d\<lparr>timers := filter (\<lambda>t. handle t \<noteq> h) (timers d)\<rparr>"

text \<open>
  The function \<open>useKeyedDebounce\<close> returns, which \<open>CurrenciesProvider\<close> names
  \<open>debouncedCall\<close>. The test \<open>if (debounceStates.current[id])\<close> is JavaScript
  truthiness: a stored handle that is not 0. The ref is a plain object too: for an id it
  does not own that names a property of \<open>Object.prototype\<close> the test reads the inherited
  value, which is truthy, and \<open>clearTimeout\<close> takes it for the handle 0. The handle is
  stored by an assignment, \<open>debounceStates.current[id] = ...\<close>: for the id
  \<open>__proto__\<close> the assignment runs the setter inherited from \<open>Object.prototype\<close>, which
  ignores a number, so nothing is stored for that id.
\<close>

definition debouncedCall ::
  "nat \<Rightarrow> 'a debounce \<Rightarrow> nat \<Rightarrow> string \<Rightarrow> 'a \<Rightarrow> 'a debounce" where
  "debouncedCall timeout d now cid a =
     (let d1 = (case debounceStates d cid of
                  None \<Rightarrow> if inheritedProperty cid then clearTimeout d 0 else d
                | Some h \<Rightarrow> if h \<noteq> 0 then clearTimeout d h else d);
          (h, d2) = setTimeout d1 (now + timeout) cid a
      in d2\<lparr>debounceStates :=
             (if cid = ''__proto__'' then debounceStates d2
              else (debounceStates d2)(cid \<mapsto> h))\<rparr>)"

text \<open>
  The host runs a pending timeout once it is due and drops it from its table; the result
  is the call \<open>fn(id, ...args)\<close> it makes. \<open>None\<close>: no such timeout is pending, or it is
  not due yet.
\<close>

definition fireTimer :: "'a debounce \<Rightarrow> nat \<Rightarrow> nat \<Rightarrow> ((string \<times> 'a) \<times> 'a debounce) option" where
  "fireTimer d now h =
     (case find (\<lambda>t. handle t = h) (timers d) of
        None \<Rightarrow> None
      | Some t \<Rightarrow>
          if due t \<le> now then Some ((key t, args t), clearTimeout d h) else None)"

text \<open>The schedules pending for one key.\<close>

definition pendingFor :: "'a debounce \<Rightarrow> string \<Rightarrow> 'a timer list" where
  "pendingFor d cid = filter (\<lambda>t. key t = cid) (timers d)"


definition emptyDebounce :: "'a debounce" where
  "emptyDebounce = \<lparr>debounceStates = Map.empty, timers = [], nextHandle = 1\<rparr>"

text \<open>
  What holds of the ref and the timer table in every state the hook reaches: handles are
  positive and below the next one, no two pending timeouts share a handle, a pending
  timeout whose handle the ref stores for a key is a timeout of that key, every pending
  timeout of a key other than \<open>__proto__\<close> is the one the ref stores for its key, and
  the ref stores nothing for \<open>__proto__\<close>.
\<close>

definition debounce_inv :: "'a debounce \<Rightarrow> bool" where
  "debounce_inv d =
     (0 < nextHandle d \<and>
      distinct (map handle (timers d)) \<and>
      (\<forall>t \<in> set (timers d). 0 < handle t \<and> handle t < nextHandle d) \<and>
      (\<forall>t \<in> set (timers d). key t \<noteq> ''__proto__'' \<longrightarrow>
         debounceStates d (key t) = Some (handle t)) \<and>
      (\<forall>t \<in> set (timers d). \<forall>k. debounceStates d k = Some (handle t) \<longrightarrow> key t = k) \<and>
      (\<forall>k h. debounceStates d k = Some h \<longrightarrow> 0 < h \<and> h < nextHandle d) \<and>
      debounceStates d ''__proto__'' = None)"

section \<open>The provider (CurrenciesProvider)\<close>

text \<open>
  The state of the provider between two events of the event loop: the reducer's state,
  the debounce ref with the host's timers, the calls of \<open>isCurrecyRateValid(id, rate)\<close>
  whose promise has not resolved yet (in the order they were made, each with the
  arguments it was called with), and the host's clock in milliseconds.
\<close>

record 'n sys =
  currencyRates :: "'n rates"
  debounceRef :: "'n debounce"
  inflight :: "(string \<times> 'n) list"
  clock :: nat

text \<open>\<open>dispatch\<close> of \<open>useReducer\<close>: the reducer applied to the current state.\<close>

definition dispatch :: "'n sys \<Rightarrow> 'n RatesAction \<Rightarrow> error + 'n sys" where
  "dispatch s a =
     (case ratesReducer (currencyRates s) a of
        Inl e \<Rightarrow> Inl e
      | Inr r \<Rightarrow> Inr (s\<lparr>currencyRates := r\<rparr>))"

definition effectDispatch :: "'n sys \<Rightarrow> 'n RatesAction \<Rightarrow> error + 'n sys" where
  "effectDispatch s a =
     dispatch
       (case a of
          EditCurrencyRate cid r \<Rightarrow>
            s\<lparr>debounceRef := debouncedCall 300 (debounceRef s) (clock s) cid r\<rparr>
        | StartIsValidRequest cid \<Rightarrow> s
        | IsValidResult cid result \<Rightarrow> s)
       a"

text \<open>
  The async function given to \<open>useKeyedDebounce\<close>, in its two halves: up to the
  \<open>await\<close>, and from the resolution of the promise on.
\<close>

definition validationStarts :: "'n sys \<Rightarrow> string \<Rightarrow> 'n \<Rightarrow> error + 'n sys" where
  "validationStarts s cid r =
     (case dispatch s (StartIsValidRequest cid) of
        Inl e \<Rightarrow> Inl e
      | Inr s' \<Rightarrow> Inr (s'\<lparr>inflight := inflight s' @ [(cid, r)]\<rparr>))"

definition validationResolves :: "'n sys \<Rightarrow> nat \<Rightarrow> bool \<Rightarrow> error + 'n sys" where
  "validationResolves s i result =
     (if i < length (inflight s)
      then dispatch (s\<lparr>inflight := take i (inflight s) @ drop (Suc i) (inflight s)\<rparr>)
             (IsValidResult (fst (inflight s ! i)) result)
      else Inl NoSuchEvent)"

text \<open>
  The events the event loop processes, one at a time: time passes; some consumer of the
  context dispatches an edit; the host runs a timeout; a validation call resolves.
  \<open>NoSuchEvent\<close> marks an event that cannot happen in the state.
\<close>

datatype 'n event =
    Advance nat
  | Edit string 'n
  | TimerFires nat
  | ValidationResolves nat bool

fun step :: "'n sys \<Rightarrow> 'n event \<Rightarrow> error + 'n sys" where
  "step s (Advance n) = Inr (s\<lparr>clock := clock s + n\<rparr>)"
| "step s (Edit cid r) = effectDispatch s (EditCurrencyRate cid r)"
| "step s (TimerFires h) =
     (case fireTimer (debounceRef s) (clock s) h of
        None \<Rightarrow> Inl NoSuchEvent
      | Some (c, d') \<Rightarrow> validationStarts (s\<lparr>debounceRef := d'\<rparr>) (fst c) (snd c))"
| "step s (ValidationResolves i result) = validationResolves s i result"

fun run :: "'n sys \<Rightarrow> 'n event list \<Rightarrow> error + 'n sys" where
  "run s [] = Inr s"
| "run s (e # es) = (case step s e of Inl x \<Rightarrow> Inl x | Inr s' \<Rightarrow> run s' es)"

definition initSys :: "(string \<rightharpoonup> 'n) \<Rightarrow> 'n sys" where
  "initSys initialCurrencyRates =
     \<lparr>currencyRates = initialCurrencyRatesState initialCurrencyRates,
      debounceRef = emptyDebounce, inflight = [], clock = 0\<rparr>"

text \<open>The validation requests outstanding for a key.\<close>

definition outstanding :: "'n sys \<Rightarrow> string \<Rightarrow> nat" where
  "outstanding s cid = length (filter (\<lambda>c. fst c = cid) (inflight s))"

text \<open>
  \<open>CurrencyRateComponent\<close>: the input of a row is disabled while the entry is
  \<open>IN_PROGRESS\<close>, and \<open>Currencies\<close> renders one row for each key of the map. An edit that
  comes from the table comes from a row whose input is enabled.
\<close>

definition isDisabled :: "'n CurrencyRate \<Rightarrow> bool" where
  "isDisabled currencyRate = (state currencyRate = Some IN_PROGRESS)"

definition inputEnabled :: "'n rates \<Rightarrow> string \<Rightarrow> bool" where
  "inputEnabled s cid = (case s cid of None \<Rightarrow> False | Some e \<Rightarrow> \<not> isDisabled e)"

fun fromTable :: "'n sys \<Rightarrow> 'n event list \<Rightarrow> bool" where
  "fromTable s [] = True"
| "fromTable s (e # es) =
     ((case e of Edit cid r \<Rightarrow> inputEnabled (currencyRates s) cid | _ \<Rightarrow> True) \<and>
      (case step s e of Inl x \<Rightarrow> True | Inr s' \<Rightarrow> fromTable s' es))"

text \<open>
  While a validation is outstanding for a key other than \<open>__proto__\<close>, the entry is
  \<open>IN_PROGRESS\<close> and no timeout is pending for the key.
\<close>

definition sys_inv :: "'n sys \<Rightarrow> bool" where
  "sys_inv s =
     (debounce_inv (debounceRef s) \<and>
      (\<forall>cid. cid \<noteq> ''__proto__'' \<longrightarrow>
         outstanding s cid \<le> 1 \<and>
         (0 < outstanding s cid \<longrightarrow>
            pendingFor (debounceRef s) cid = [] \<and>
            (\<exists>e. currencyRates s cid = Some e \<and> state e = Some IN_PROGRESS))))"

section \<open>Numbers that are not finite\<close>

text \<open>
  A JavaScript number is a finite value, NaN or one of the two infinities. The finite
  values are abstracted by the reals; nothing below computes with them.
\<close>

datatype number = Finite real | NaN | PosInfinity | NegInfinity

fun isFinite :: "number \<Rightarrow> bool" where
  "isFinite (Finite x) = True"
| "isFinite NaN = False"
| "isFinite PosInfinity = False"
| "isFinite NegInfinity = False"

section \<open>The rate input (NumberInput)\<close>

text \<open>
  What the input of a row can hold when it changes: a number, finite or not, or text
  that is no number.
\<close>

datatype candidate = Numeric number | NonNumeric string

text \<open>
  Modelled from the spec: \<open>NumberInput\<close> is defined in \<open>./utils\<close>, which is not among the
  sources. The spec (section 7) has an invalid input, a rate edit that is non-numeric or
  not finite, rejected before it enters the state machine, with no transition; so the
  component calls \<open>onChange\<close> with the finite numbers only. The result is the value
  \<open>onChange\<close> is called with, \<open>None\<close> when it is not called.
\<close>

definition NumberInput :: "candidate \<Rightarrow> number option" where
  "NumberInput c =
     (case c of
        Numeric v \<Rightarrow> if isFinite v then Some v else None
      | NonNumeric t \<Rightarrow> None)"

text \<open>
  \<open>CurrencyRateComponent\<close> and \<open>Currencies\<close>: the \<open>onChange\<close> given to \<open>NumberInput\<close> is
  \<open>(value) => setCurrencyRate(currency, value)\<close>, and \<open>setCurrencyRate\<close> dispatches the
  edit. When \<open>onChange\<close> is not called nothing is dispatched.
\<close>

definition rowChange :: "number sys \<Rightarrow> string \<Rightarrow> candidate \<Rightarrow> error + number sys" where
  "rowChange s currency' c =
     (case NumberInput c of
        None \<Rightarrow> Inr s
      | Some v \<Rightarrow> effectDispatch s (EditCurrencyRate currency' v))"

section \<open>Lemmas: the reducer\<close>

lemma getEntry_own [simp]: "prev cid = Some e \<Longrightarrow> getEntry prev cid = Some e"
  by (simp add: getEntry_def)

lemma spread_getEntry_absent [simp]:
  "prev cid = None \<Longrightarrow> spread (getEntry prev cid) = noProperties"
  by (simp add: getEntry_def spread_def)

lemma spread_Some [simp]: "spread (Some e) = e"
  by (simp add: spread_def)

lemma accepted_converged_initial:
  "accepted_converged (initialCurrencyRatesState icr)"
  by (auto simp: accepted_converged_def initialCurrencyRatesState_def split: option.splits)

lemma accepted_converged_step:
  assumes "accepted_converged s" and "ratesReducer s a = Inr s'"
  shows "accepted_converged s'"
proof (cases a)
  case (EditCurrencyRate cid r)
  with assms show ?thesis
    by (auto simp: accepted_converged_def split: if_splits)
next
  case (StartIsValidRequest cid)
  with assms show ?thesis
    by (auto simp: accepted_converged_def split: if_splits)
next
  case (IsValidResult cid result)
  with assms show ?thesis
    by (auto simp: accepted_converged_def Let_def split: option.splits if_splits)
qed

lemma accepted_converged_reduceAll:
  "accepted_converged s \<Longrightarrow> reduceAll s as = Inr s' \<Longrightarrow> accepted_converged s'"
proof (induction as arbitrary: s)
  case Nil
  then show ?case by simp
next
  case (Cons a as)
  then show ?case
    by (auto split: sum.splits dest: accepted_converged_step)
qed

lemma ratesReducer_frame:
  assumes "ratesReducer s a = Inr s'" and "k \<noteq> target a"
  shows "s' k = s k"
  using assms
  by (cases a) (auto simp: Let_def split: option.splits)

lemma ratesReducer_keeps_confirmed:
  assumes "ratesReducer s a = Inr s'" and "\<not> (\<exists>cid b. a = IsValidResult cid b)"
  shows "confirmedRateOf s' k = confirmedRateOf s k"
proof (cases a)
  case (EditCurrencyRate cid r)
  with assms(1) show ?thesis
    by (cases "k = cid"; cases "s cid") (auto simp: confirmedRateOf_def noProperties_def)
next
  case (StartIsValidRequest cid)
  with assms(1) show ?thesis
    by (cases "k = cid"; cases "s cid") (auto simp: confirmedRateOf_def noProperties_def)
next
  case (IsValidResult cid b)
  with assms(2) show ?thesis by simp
qed

lemma ratesReducer_dom:
  assumes "ratesReducer s a = Inr s'"
  shows "dom s' = insert (target a) (dom s)"
  using assms
  by (cases a) (auto simp: Let_def split: option.splits if_splits)

section \<open>Lemmas: the keyed debounce\<close>

lemma debounce_inv_empty: "debounce_inv emptyDebounce"
  by (simp add: debounce_inv_def emptyDebounce_def)

lemma debounce_inv_handle_pos:
  "debounce_inv d \<Longrightarrow> t \<in> set (timers d) \<Longrightarrow> 0 < handle t"
  unfolding debounce_inv_def by blast

lemma debouncedCall_unfold:
  assumes "debounce_inv d"
  shows "debouncedCall timeout d now cid a =
     \<lparr>debounceStates =
        (if cid = ''__proto__'' then debounceStates d
         else (debounceStates d)(cid \<mapsto> nextHandle d)),
      timers = filter (\<lambda>t. Some (handle t) \<noteq> debounceStates d cid) (timers d)
                 @ [\<lparr>handle = nextHandle d, due = now + timeout, key = cid, args = a\<rparr>],
      nextHandle = Suc (nextHandle d)\<rparr>"
proof (cases "debounceStates d cid")
  case None
  have "filter (\<lambda>t. handle t \<noteq> 0) (timers d) = timers d"
    using debounce_inv_handle_pos [OF assms] by (simp add: filter_id_conv)
  with None show ?thesis
    by (simp add: debouncedCall_def setTimeout_def clearTimeout_def Let_def)
next
  case (Some h)
  with assms have "h \<noteq> 0"
    unfolding debounce_inv_def by force
  with Some have "filter (\<lambda>t. Some (handle t) \<noteq> debounceStates d cid) (timers d)
      = filter (\<lambda>t. handle t \<noteq> h) (timers d)"
    by simp
  with Some \<open>h \<noteq> 0\<close> show ?thesis
    by (simp add: debouncedCall_def setTimeout_def clearTimeout_def Let_def)
qed

lemma debounce_inv_debouncedCall:
  assumes "debounce_inv d"
  shows "debounce_inv (debouncedCall timeout d now cid a)"
proof -
  let ?keep = "\<lambda>t. Some (handle t) \<noteq> debounceStates d cid"
  let ?new = "\<lparr>handle = nextHandle d, due = now + timeout, key = cid, args = a\<rparr>"
  let ?ref = "if cid = ''__proto__'' then debounceStates d
              else (debounceStates d)(cid \<mapsto> nextHandle d)"
  from assms have pos: "0 < nextHandle d"
    and dist: "distinct (map handle (timers d))"
    and range: "\<And>t. t \<in> set (timers d) \<Longrightarrow> 0 < handle t \<and> handle t < nextHandle d"
    and reg: "\<And>t. t \<in> set (timers d) \<Longrightarrow> key t \<noteq> ''__proto__'' \<Longrightarrow>
                debounceStates d (key t) = Some (handle t)"
    and own: "\<And>t k. t \<in> set (timers d) \<Longrightarrow> debounceStates d k = Some (handle t) \<Longrightarrow>
                key t = k"
    and bound: "\<And>k h. debounceStates d k = Some h \<Longrightarrow> 0 < h \<and> h < nextHandle d"
    and proto: "debounceStates d ''__proto__'' = None"
    unfolding debounce_inv_def by blast+
  have d1: "distinct (map handle (filter ?keep (timers d) @ [?new]))"
  proof -
    have "nextHandle d \<notin> handle ` set (filter ?keep (timers d))"
      using range by force
    then show ?thesis
      using dist by (simp add: distinct_map_filter)
  qed
  have d2: "\<forall>t \<in> set (filter ?keep (timers d) @ [?new]).
              0 < handle t \<and> handle t < Suc (nextHandle d)"
    using range pos by (auto simp: less_Suc_eq)
  have d3: "\<forall>t \<in> set (filter ?keep (timers d) @ [?new]). key t \<noteq> ''__proto__'' \<longrightarrow>
              ?ref (key t) = Some (handle t)"
  proof (intro ballI impI)
    fix t assume t: "t \<in> set (filter ?keep (timers d) @ [?new])" and k: "key t \<noteq> ''__proto__''"
    show "?ref (key t) = Some (handle t)"
    proof (cases "t = ?new")
      case True
      with k show ?thesis by simp
    next
      case False
      with t have mem: "t \<in> set (timers d)" and kept: "?keep t" by auto
      from reg [OF mem k] kept have "key t \<noteq> cid" by force
      with reg [OF mem k] show ?thesis by simp
    qed
  qed
  have d4: "\<forall>t \<in> set (filter ?keep (timers d) @ [?new]).
              \<forall>k. ?ref k = Some (handle t) \<longrightarrow> key t = k"
  proof (intro ballI allI impI)
    fix t k assume t: "t \<in> set (filter ?keep (timers d) @ [?new])"
      and r: "?ref k = Some (handle t)"
    show "key t = k"
    proof (cases "t = ?new")
      case True
      with r bound [of k "nextHandle d"] show ?thesis
        by (auto split: if_splits)
    next
      case False
      with t have mem: "t \<in> set (timers d)" by auto
      from range [OF mem] r have "debounceStates d k = Some (handle t)"
        by (auto split: if_splits)
      with own [OF mem] show ?thesis by blast
    qed
  qed
  have d5: "\<forall>k h. ?ref k = Some h \<longrightarrow> 0 < h \<and> h < Suc (nextHandle d)"
    using bound pos by (auto simp: less_Suc_eq split: if_splits)
  have d6: "?ref ''__proto__'' = None"
    using proto by simp
  show ?thesis
    unfolding debounce_inv_def debouncedCall_unfold [OF assms] debounce.select_convs
    by (intro conjI) (simp, rule d1, rule d2, rule d3, rule d4, rule d5, rule d6)
qed


lemma pendingFor_debouncedCall_proto:
  assumes "debounce_inv d"
  shows "pendingFor (debouncedCall timeout d now ''__proto__'' a) ''__proto__'' =
           pendingFor d ''__proto__'' @
           [\<lparr>handle = nextHandle d, due = now + timeout, key = ''__proto__'', args = a\<rparr>]"
proof -
  from assms have "debounceStates d ''__proto__'' = None"
    unfolding debounce_inv_def by blast
  then show ?thesis
    by (simp add: pendingFor_def debouncedCall_unfold [OF assms])
qed

lemma pendingFor_debouncedCall_other:
  assumes "debounce_inv d" and "k \<noteq> cid"
  shows "pendingFor (debouncedCall timeout d now cid a) k = pendingFor d k"
proof -
  from assms(1) have own: "\<And>t k. t \<in> set (timers d) \<Longrightarrow>
      debounceStates d k = Some (handle t) \<Longrightarrow> key t = k"
    unfolding debounce_inv_def by blast
  have "filter (\<lambda>t. key t = k)
          (filter (\<lambda>t. Some (handle t) \<noteq> debounceStates d cid) (timers d))
        = filter (\<lambda>t. key t = k) (timers d)"
    unfolding filter_filter
  proof (rule filter_cong [OF refl])
    fix t assume t: "t \<in> set (timers d)"
    show "(Some (handle t) \<noteq> debounceStates d cid \<and> key t = k) = (key t = k)"
      using own [OF t, of cid] assms(2) by auto
  qed
  with assms(2) show ?thesis
    by (simp add: pendingFor_def debouncedCall_unfold [OF assms(1)])
qed

lemma fireTimer_SomeD:
  assumes "fireTimer d now h = Some (c, d')"
  shows "\<exists>t \<in> set (timers d). handle t = h \<and> c = (key t, args t) \<and> due t \<le> now \<and>
           d' = clearTimeout d h"
  using assms
  by (auto simp: fireTimer_def find_Some_iff split: option.splits if_splits)

lemma debounce_inv_clearTimeout:
  "debounce_inv d \<Longrightarrow> debounce_inv (clearTimeout d h)"
  by (auto simp: debounce_inv_def clearTimeout_def distinct_map_filter)

lemma pendingFor_clearTimeout_same:
  assumes "debounce_inv d" and "t \<in> set (timers d)" and "key t \<noteq> ''__proto__''"
  shows "pendingFor (clearTimeout d (handle t)) (key t) = []"
proof -
  from assms(1) have reg: "\<And>u. u \<in> set (timers d) \<Longrightarrow> key u \<noteq> ''__proto__'' \<Longrightarrow>
                debounceStates d (key u) = Some (handle u)"
    unfolding debounce_inv_def by blast
  have "handle u = handle t" if "u \<in> set (timers d)" "key u = key t" for u
    using reg [OF that(1)] reg [OF assms(2,3)] that(2) assms(3) by simp
  then show ?thesis
    by (auto simp: pendingFor_def clearTimeout_def filter_empty_conv)
qed

lemma pendingFor_clearTimeout_other:
  assumes "debounce_inv d" and "t \<in> set (timers d)" and "k \<noteq> key t"
  shows "pendingFor (clearTimeout d (handle t)) k = pendingFor d k"
proof -
  from assms(1) have dist: "distinct (map handle (timers d))"
    unfolding debounce_inv_def by blast
  have "handle u \<noteq> handle t" if "u \<in> set (timers d)" "key u = k" for u
  proof
    assume "handle u = handle t"
    with dist that(1) assms(2) have "u = t"
      by (auto simp: distinct_map dest: inj_onD)
    with that(2) assms(3) show False by simp
  qed
  then have "filter (\<lambda>u. key u = k) (filter (\<lambda>u. handle u \<noteq> handle t) (timers d))
             = filter (\<lambda>u. key u = k) (timers d)"
    unfolding filter_filter by (intro filter_cong [OF refl]) auto
  then show ?thesis
    by (simp add: pendingFor_def clearTimeout_def)
qed





section \<open>Lemmas: the provider\<close>

text \<open>The equations that evaluate a run of the provider on concrete events.\<close>

lemmas provider_defs = initSys_def initialCurrencyRatesState_def emptyDebounce_def
  effectDispatch_def dispatch_def debouncedCall_def setTimeout_def clearTimeout_def
  fireTimer_def validationStarts_def validationResolves_def spread_def getEntry_def
  noProperties_def inheritedProperty_def Let_def outstanding_def

lemma filter_remove_nth:
  assumes "i < length xs"
  shows "length (filter P (take i xs @ drop (Suc i) xs)) =
           length (filter P xs) - (if P (xs ! i) then 1 else 0)"
proof -
  have "length (filter P xs) = length (filter P (take i xs @ xs ! i # drop (Suc i) xs))"
    using id_take_nth_drop [OF assms] by simp
  then show ?thesis by simp
qed

lemma step_Edit:
  "step s (Edit cid r) =
     Inr (s\<lparr>debounceRef := debouncedCall 300 (debounceRef s) (clock s) cid r,
            currencyRates := (currencyRates s)
              (cid \<mapsto> (spread (getEntry (currencyRates s) cid))\<lparr>rate := Some r, state := Some DIRTY\<rparr>)\<rparr>)"
  by (simp add: effectDispatch_def dispatch_def)

lemma step_ValidationResolves_known:
  assumes "i < length (inflight s)" and "currencyRates s (fst (inflight s ! i)) = Some e"
  shows "step s (ValidationResolves i b) =
     Inr (s\<lparr>inflight := take i (inflight s) @ drop (Suc i) (inflight s),
            currencyRates := (currencyRates s)(fst (inflight s ! i) \<mapsto>
               e\<lparr>state := Some ACCEPTED,
                 rate := (if b then rate e else confirmedRate e),
                 confirmedRate := (if b then rate e else confirmedRate e)\<rparr>)\<rparr>)"
  using assms by (simp add: validationResolves_def dispatch_def Let_def)

lemma sys_inv_initial: "sys_inv (initSys icr)"
  by (simp add: sys_inv_def initSys_def debounce_inv_empty outstanding_def)

lemma sys_inv_Advance: "sys_inv s \<Longrightarrow> sys_inv (s\<lparr>clock := t\<rparr>)"
  by (simp add: sys_inv_def outstanding_def)

lemma sys_invI:
  assumes "debounce_inv (debounceRef s)"
    and "\<And>k. k \<noteq> ''__proto__'' \<Longrightarrow> outstanding s k \<le> 1"
    and "\<And>k. k \<noteq> ''__proto__'' \<Longrightarrow> 0 < outstanding s k \<Longrightarrow>
           pendingFor (debounceRef s) k = [] \<and>
           (\<exists>e. currencyRates s k = Some e \<and> state e = Some IN_PROGRESS)"
  shows "sys_inv s"
  unfolding sys_inv_def using assms by blast

lemma sys_inv_Edit:
  assumes inv: "sys_inv s" and en: "inputEnabled (currencyRates s) cid"
    and st: "step s (Edit cid r) = Inr s'"
  shows "sys_inv s'"
proof (rule sys_invI)
  from st have s': "s' = s\<lparr>debounceRef := debouncedCall 300 (debounceRef s) (clock s) cid r,
            currencyRates := (currencyRates s)
              (cid \<mapsto> (spread (getEntry (currencyRates s) cid))\<lparr>rate := Some r, state := Some DIRTY\<rparr>)\<rparr>"
    unfolding step_Edit by simp
  from inv have dinv: "debounce_inv (debounceRef s)"
    and le: "\<And>k. k \<noteq> ''__proto__'' \<Longrightarrow> outstanding s k \<le> 1"
    and busy: "\<And>k. k \<noteq> ''__proto__'' \<Longrightarrow> 0 < outstanding s k \<Longrightarrow>
        pendingFor (debounceRef s) k = [] \<and>
        (\<exists>e. currencyRates s k = Some e \<and> state e = Some IN_PROGRESS)"
    unfolding sys_inv_def by blast+
  have out: "outstanding s' k = outstanding s k" for k
    by (simp add: s' outstanding_def)
  have idle: "outstanding s cid = 0" if "cid \<noteq> ''__proto__''"
  proof (rule ccontr)
    assume "outstanding s cid \<noteq> 0"
    then have "\<exists>e. currencyRates s cid = Some e \<and> state e = Some IN_PROGRESS"
      using busy [OF that] by simp
    with en show False
      by (auto simp: inputEnabled_def isDisabled_def)
  qed
  show "debounce_inv (debounceRef s')"
    by (simp add: s' dinv debounce_inv_debouncedCall)
  show "outstanding s' k \<le> 1" if "k \<noteq> ''__proto__''" for k
    using le [OF that] out by simp
  show "pendingFor (debounceRef s') k = [] \<and>
        (\<exists>e. currencyRates s' k = Some e \<and> state e = Some IN_PROGRESS)"
    if k: "k \<noteq> ''__proto__''" and pos: "0 < outstanding s' k" for k
  proof -
    from pos idle out k have ne: "k \<noteq> cid" by auto
    from pos out have "0 < outstanding s k" by simp
    from busy [OF k this] ne dinv show ?thesis
      by (simp add: s' pendingFor_debouncedCall_other)
  qed
qed

lemma sys_inv_TimerFires:
  assumes inv: "sys_inv s" and st: "step s (TimerFires h) = Inr s'"
  shows "sys_inv s'"
proof (rule sys_invI)
  from inv have dinv: "debounce_inv (debounceRef s)"
    and le: "\<And>k. k \<noteq> ''__proto__'' \<Longrightarrow> outstanding s k \<le> 1"
    and busy: "\<And>k. k \<noteq> ''__proto__'' \<Longrightarrow> 0 < outstanding s k \<Longrightarrow>
        pendingFor (debounceRef s) k = [] \<and>
        (\<exists>e. currencyRates s k = Some e \<and> state e = Some IN_PROGRESS)"
    unfolding sys_inv_def by blast+
  from st obtain c d' where f: "fireTimer (debounceRef s) (clock s) h = Some (c, d')"
    by (auto split: option.splits)
  from fireTimer_SomeD [OF f] obtain t where t: "t \<in> set (timers (debounceRef s))"
    "handle t = h" "c = (key t, args t)" "d' = clearTimeout (debounceRef s) h"
    by blast
  let ?k = "key t"
  from st f t have s': "s' = s\<lparr>debounceRef := clearTimeout (debounceRef s) (handle t),
       currencyRates := (currencyRates s)
          (?k \<mapsto> (spread (getEntry (currencyRates s) ?k))\<lparr>state := Some IN_PROGRESS\<rparr>),
       inflight := inflight s @ [(?k, args t)]\<rparr>"
    by (auto simp: validationStarts_def dispatch_def)
  have "pendingFor (debounceRef s) ?k \<noteq> []"
    using t(1) by (auto simp: pendingFor_def filter_empty_conv)
  with busy have idle: "outstanding s ?k = 0" if "?k \<noteq> ''__proto__''"
    using that by auto
  have out: "outstanding s' k = outstanding s k + (if k = ?k then 1 else 0)" for k
    by (simp add: s' outstanding_def)
  show "debounce_inv (debounceRef s')"
    by (simp add: s' dinv debounce_inv_clearTimeout)
  show "outstanding s' k \<le> 1" if "k \<noteq> ''__proto__''" for k
    using le [OF that] out [of k] idle that by (cases "k = ?k") simp_all
  show "pendingFor (debounceRef s') k = [] \<and>
        (\<exists>e. currencyRates s' k = Some e \<and> state e = Some IN_PROGRESS)"
    if k: "k \<noteq> ''__proto__''" and pos: "0 < outstanding s' k" for k
  proof (cases "k = ?k")
    case True
    with k have "?k \<noteq> ''__proto__''" by simp
    from pendingFor_clearTimeout_same [OF dinv t(1) this] True show ?thesis
      by (simp add: s')
  next
    case False
    with pos out [of k] have "0 < outstanding s k" by simp
    from busy [OF k this] False pendingFor_clearTimeout_other [OF dinv t(1) False]
    show ?thesis by (simp add: s')
  qed
qed

lemma sys_inv_ValidationResolves:
  assumes inv: "sys_inv s" and st: "step s (ValidationResolves i res) = Inr s'"
  shows "sys_inv s'"
proof (rule sys_invI)
  from inv have dinv: "debounce_inv (debounceRef s)"
    and le: "\<And>k. k \<noteq> ''__proto__'' \<Longrightarrow> outstanding s k \<le> 1"
    and busy: "\<And>k. k \<noteq> ''__proto__'' \<Longrightarrow> 0 < outstanding s k \<Longrightarrow>
        pendingFor (debounceRef s) k = [] \<and>
        (\<exists>e. currencyRates s k = Some e \<and> state e = Some IN_PROGRESS)"
    unfolding sys_inv_def by blast+
  from st have i: "i < length (inflight s)"
    by (auto simp: validationResolves_def split: if_splits)
  let ?k = "fst (inflight s ! i)"
  from st i obtain rs where rs: "ratesReducer (currencyRates s) (IsValidResult ?k res) = Inr rs"
    and s': "s' = s\<lparr>inflight := take i (inflight s) @ drop (Suc i) (inflight s),
                     currencyRates := rs\<rparr>"
    by (auto simp: validationResolves_def dispatch_def split: sum.splits)
  have frame: "rs k = currencyRates s k" if "k \<noteq> ?k" for k
    using rs that by (auto simp: Let_def split: option.splits)
  have out: "outstanding s' k = outstanding s k - (if k = ?k then 1 else 0)" for k
    using filter_remove_nth [OF i, of "\<lambda>c. fst c = k"]
    by (auto simp: s' outstanding_def)
  show "debounce_inv (debounceRef s')"
    by (simp add: s' dinv)
  show "outstanding s' k \<le> 1" if "k \<noteq> ''__proto__''" for k
    using le [OF that] out [of k] by simp
  show "pendingFor (debounceRef s') k = [] \<and>
        (\<exists>e. currencyRates s' k = Some e \<and> state e = Some IN_PROGRESS)"
    if k: "k \<noteq> ''__proto__''" and pos: "0 < outstanding s' k" for k
  proof -
    from pos out [of k] le [OF k] have ne: "k \<noteq> ?k" and "0 < outstanding s k"
      by (auto split: if_splits)
    from busy [OF k this(2)] frame [OF ne] show ?thesis
      by (simp add: s')
  qed
qed

lemma sys_inv_run:
  "sys_inv s \<Longrightarrow> fromTable s es \<Longrightarrow> run s es = Inr s' \<Longrightarrow> sys_inv s'"
proof (induction es arbitrary: s)
  case Nil
  then show ?case by simp
next
  case (Cons e es)
  from Cons.prems(3) obtain s1 where s1: "step s e = Inr s1" and r: "run s1 es = Inr s'"
    by (auto split: sum.splits)
  from Cons.prems(2) s1 have ft: "fromTable s1 es" by simp
  have "sys_inv s1"
  proof (cases e)
    case (Advance n)
    with s1 Cons.prems(1) show ?thesis by (auto simp: sys_inv_Advance)
  next
    case (Edit cid r)
    with Cons.prems(2) have "inputEnabled (currencyRates s) cid" by simp
    with Cons.prems(1) s1 Edit show ?thesis by (auto intro: sys_inv_Edit)
  next
    case (TimerFires h)
    with Cons.prems(1) s1 show ?thesis by (auto intro: sys_inv_TimerFires)
  next
    case (ValidationResolves i res)
    with Cons.prems(1) s1 show ?thesis by (auto intro: sys_inv_ValidationResolves)
  qed
  from Cons.IH [OF this ft r] show ?case .
qed

section \<open>Lemmas: the order total\<close>

lemma confirmedRateOf_getEntry:
  "confirmedRateOf rs k = (case getEntry rs k of None \<Rightarrow> None | Some e \<Rightarrow> confirmedRate e)"
  by (simp add: confirmedRateOf_def getEntry_def noProperties_def split: option.splits)

lemma basePrices_eq:
  "basePrices g rs os =
     (if list_all (\<lambda>ord. getEntry rs (currency ord) \<noteq> None) os
      then Inr (map (\<lambda>ord. g (price ord) (confirmedRateOf rs (currency ord))) os)
      else Inl TypeError)"
  by (induction os) (auto simp: confirmedRateOf_getEntry split: option.splits)

lemma basePrices_cong:
  assumes "\<And>k. (getEntry rs' k = None) = (getEntry rs k = None)"
    and "\<And>k. confirmedRateOf rs' k = confirmedRateOf rs k"
  shows "basePrices g rs' os = basePrices g rs os"
  unfolding basePrices_eq using assms by simp

lemma getEntry_None_iff:
  "(getEntry rs k = None) = (k \<notin> dom rs \<and> \<not> inheritedProperty k)"
  by (auto simp: getEntry_def split: option.splits)

section \<open>The claims\<close>

text \<open>
  C1. In every state reached from the initial state by any sequence of the three
  actions, every entry whose status is ACCEPTED has its rate equal to its confirmed rate.
  Equality is identity of the stored values: an accepted entry holds one value twice.
\<close>

theorem accepted_implies_rate_confirmed:
  assumes "reduceAll (initialCurrencyRatesState icr) as = Inr s"
    and "s cid = Some e"
    and "state e = Some ACCEPTED"
  shows "rate e = confirmedRate e"
proof -
  have "accepted_converged s"
    using accepted_converged_initial assms(1) by (rule accepted_converged_reduceAll)
  with assms(2,3) show ?thesis
    unfolding accepted_converged_def by blast
qed

theorem accepted_implies_rate_confirmed_witness:
  "reduceAll (initialCurrencyRatesState [''USD'' \<mapsto> 1.1::real])
       [EditCurrencyRate ''USD'' 1.2, StartIsValidRequest ''USD'', IsValidResult ''USD'' True]
     = Inr ((initialCurrencyRatesState [''USD'' \<mapsto> 1.1])
             (''USD'' \<mapsto> \<lparr>rate = Some 1.2, state = Some ACCEPTED, confirmedRate = Some 1.2\<rparr>)) \<and>
   ((initialCurrencyRatesState [''USD'' \<mapsto> 1.1::real])
       (''USD'' \<mapsto> \<lparr>rate = Some 1.2, state = Some ACCEPTED, confirmedRate = Some 1.2\<rparr>)) ''USD''
     = Some \<lparr>rate = Some 1.2, state = Some ACCEPTED, confirmedRate = Some 1.2\<rparr> \<and>
   state \<lparr>rate = Some (1.2::real), state = Some ACCEPTED, confirmedRate = Some 1.2\<rparr>
     = Some ACCEPTED \<and>
   rate \<lparr>rate = Some (1.2::real), state = Some ACCEPTED, confirmedRate = Some 1.2\<rparr>
     = confirmedRate \<lparr>rate = Some (1.2::real), state = Some ACCEPTED, confirmedRate = Some 1.2\<rparr>"
  using accepted_implies_rate_confirmed
    [of "[''USD'' \<mapsto> 1.1::real]"
        "[EditCurrencyRate ''USD'' 1.2, StartIsValidRequest ''USD'', IsValidResult ''USD'' True]"
        "(initialCurrencyRatesState [''USD'' \<mapsto> 1.1])
           (''USD'' \<mapsto> \<lparr>rate = Some 1.2, state = Some ACCEPTED, confirmedRate = Some 1.2\<rparr>)"
        "''USD''" "\<lparr>rate = Some 1.2, state = Some ACCEPTED, confirmedRate = Some 1.2\<rparr>"]
  by (simp add: initialCurrencyRatesState_def spread_def getEntry_def noProperties_def Let_def)

text \<open>
  C2. When a validation resolves as accepted, the confirmed rate becomes the rate the
  entry holds at that moment, whatever rate the validation call was made with. In the
  race of the spec (edit to 1.2, the validation starts, edit to 1.3 while it is pending,
  the validation resolves true) the call in flight carries 1.2 and the confirmed rate
  ends as 1.3.
\<close>

theorem accept_confirms_current_rate:
  assumes "currencyRates s cid = Some e"
    and "i < length (inflight s)"
    and "inflight s ! i = (cid, captured)"
  shows "ratesReducer (currencyRates s) (IsValidResult cid True) =
           Inr ((currencyRates s)(cid \<mapsto>
                  e\<lparr>state := Some ACCEPTED, confirmedRate := rate e\<rparr>)) \<and>
         (\<exists>s'. step s (ValidationResolves i True) = Inr s' \<and>
               confirmedRateOf (currencyRates s') cid = rate e) \<and>
         map_sum id inflight
           (run (initSys [''USD'' \<mapsto> 1.1::real])
              [Edit ''USD'' 1.2, Advance 300, TimerFires 1, Edit ''USD'' 1.3])
           = Inr [(''USD'', 1.2)] \<and>
         map_sum id (\<lambda>s'. confirmedRateOf (currencyRates s') ''USD'')
           (run (initSys [''USD'' \<mapsto> 1.1::real])
              [Edit ''USD'' 1.2, Advance 300, TimerFires 1, Edit ''USD'' 1.3,
               ValidationResolves 0 True])
           = Inr (Some 1.3)"
proof (intro conjI)
  show "ratesReducer (currencyRates s) (IsValidResult cid True) =
           Inr ((currencyRates s)(cid \<mapsto>
                  e\<lparr>state := Some ACCEPTED, confirmedRate := rate e\<rparr>))"
    using assms(1) by simp
  from assms have "currencyRates s (fst (inflight s ! i)) = Some e" by simp
  from step_ValidationResolves_known [OF assms(2) this, of True] assms(3)
  show "\<exists>s'. step s (ValidationResolves i True) = Inr s' \<and>
               confirmedRateOf (currencyRates s') cid = rate e"
    by (simp add: confirmedRateOf_def)
  show "map_sum id inflight
           (run (initSys [''USD'' \<mapsto> 1.1::real])
              [Edit ''USD'' 1.2, Advance 300, TimerFires 1, Edit ''USD'' 1.3])
           = Inr [(''USD'', 1.2)]"
    by (simp add: provider_defs)
  show "map_sum id (\<lambda>s'. confirmedRateOf (currencyRates s') ''USD'')
           (run (initSys [''USD'' \<mapsto> 1.1::real])
              [Edit ''USD'' 1.2, Advance 300, TimerFires 1, Edit ''USD'' 1.3,
               ValidationResolves 0 True])
           = Inr (Some 1.3)"
    by (simp add: provider_defs confirmedRateOf_def)
qed

theorem accept_confirms_current_rate_witness:
  "currencyRates
     \<lparr>currencyRates =
        [''USD'' \<mapsto> \<lparr>rate = Some (1.3::real), state = Some DIRTY, confirmedRate = Some 1.1\<rparr>],
      debounceRef = emptyDebounce, inflight = [(''USD'', 1.2)], clock = 0\<rparr> ''USD''
     = Some \<lparr>rate = Some 1.3, state = Some DIRTY, confirmedRate = Some 1.1\<rparr> \<and>
   0 < length [(''USD'', 1.2::real)] \<and>
   [(''USD'', 1.2::real)] ! 0 = (''USD'', 1.2) \<and>
   ratesReducer
     [''USD'' \<mapsto> \<lparr>rate = Some (1.3::real), state = Some DIRTY, confirmedRate = Some 1.1\<rparr>]
     (IsValidResult ''USD'' True)
     = Inr [''USD'' \<mapsto> \<lparr>rate = Some 1.3, state = Some ACCEPTED, confirmedRate = Some 1.3\<rparr>]"
  using accept_confirms_current_rate
    [of "\<lparr>currencyRates =
            [''USD'' \<mapsto> \<lparr>rate = Some (1.3::real), state = Some DIRTY, confirmedRate = Some 1.1\<rparr>],
          debounceRef = emptyDebounce, inflight = [(''USD'', 1.2)], clock = 0\<rparr>"
        "''USD''" "\<lparr>rate = Some 1.3, state = Some DIRTY, confirmedRate = Some 1.1\<rparr>"
        0 "1.2"]
  by simp

text \<open>
  C3. When a validation resolves as rejected, the entry's rate goes back to its confirmed
  rate, the confirmed rate stays, and the status becomes ACCEPTED: every edit since the
  last confirmed value is lost, also one made after the rejected validation started.
  From a confirmed rate of 1.1, an edit to 1.2 and a rejection leave rate and confirmed
  rate at 1.1; so does a further edit to 1.3 made while the validation was pending.
\<close>

theorem reject_reverts_to_confirmed:
  assumes "currencyRates s cid = Some e"
    and "i < length (inflight s)"
    and "inflight s ! i = (cid, captured)"
  shows "ratesReducer (currencyRates s) (IsValidResult cid False) =
           Inr ((currencyRates s)(cid \<mapsto>
                  e\<lparr>state := Some ACCEPTED, rate := confirmedRate e\<rparr>)) \<and>
         (\<exists>s'. step s (ValidationResolves i False) = Inr s' \<and>
               currencyRates s' cid =
                 Some (e\<lparr>state := Some ACCEPTED, rate := confirmedRate e\<rparr>)) \<and>
         map_sum id (\<lambda>s'. currencyRates s' ''USD'')
           (run (initSys [''USD'' \<mapsto> 1.1::real])
              [Edit ''USD'' 1.2, Advance 300, TimerFires 1, ValidationResolves 0 False])
           = Inr (Some \<lparr>rate = Some 1.1, state = Some ACCEPTED, confirmedRate = Some 1.1\<rparr>) \<and>
         map_sum id (\<lambda>s'. currencyRates s' ''USD'')
           (run (initSys [''USD'' \<mapsto> 1.1::real])
              [Edit ''USD'' 1.2, Advance 300, TimerFires 1, Edit ''USD'' 1.3,
               ValidationResolves 0 False])
           = Inr (Some \<lparr>rate = Some 1.1, state = Some ACCEPTED, confirmedRate = Some 1.1\<rparr>)"
proof (intro conjI)
  show "ratesReducer (currencyRates s) (IsValidResult cid False) =
           Inr ((currencyRates s)(cid \<mapsto>
                  e\<lparr>state := Some ACCEPTED, rate := confirmedRate e\<rparr>))"
    using assms(1) by simp
  from assms have "currencyRates s (fst (inflight s ! i)) = Some e" by simp
  from step_ValidationResolves_known [OF assms(2) this, of False] assms(3)
  show "\<exists>s'. step s (ValidationResolves i False) = Inr s' \<and>
               currencyRates s' cid =
                 Some (e\<lparr>state := Some ACCEPTED, rate := confirmedRate e\<rparr>)"
    by simp
  show "map_sum id (\<lambda>s'. currencyRates s' ''USD'')
           (run (initSys [''USD'' \<mapsto> 1.1::real])
              [Edit ''USD'' 1.2, Advance 300, TimerFires 1, ValidationResolves 0 False])
           = Inr (Some \<lparr>rate = Some 1.1, state = Some ACCEPTED, confirmedRate = Some 1.1\<rparr>)"
    by (simp add: provider_defs)
  show "map_sum id (\<lambda>s'. currencyRates s' ''USD'')
           (run (initSys [''USD'' \<mapsto> 1.1::real])
              [Edit ''USD'' 1.2, Advance 300, TimerFires 1, Edit ''USD'' 1.3,
               ValidationResolves 0 False])
           = Inr (Some \<lparr>rate = Some 1.1, state = Some ACCEPTED, confirmedRate = Some 1.1\<rparr>)"
    by (simp add: provider_defs)
qed

theorem reject_reverts_to_confirmed_witness:
  "currencyRates
     \<lparr>currencyRates =
        [''USD'' \<mapsto> \<lparr>rate = Some (1.3::real), state = Some DIRTY, confirmedRate = Some 1.1\<rparr>],
      debounceRef = emptyDebounce, inflight = [(''USD'', 1.2)], clock = 0\<rparr> ''USD''
     = Some \<lparr>rate = Some 1.3, state = Some DIRTY, confirmedRate = Some 1.1\<rparr> \<and>
   0 < length [(''USD'', 1.2::real)] \<and>
   [(''USD'', 1.2::real)] ! 0 = (''USD'', 1.2) \<and>
   ratesReducer
     [''USD'' \<mapsto> \<lparr>rate = Some (1.3::real), state = Some DIRTY, confirmedRate = Some 1.1\<rparr>]
     (IsValidResult ''USD'' False)
     = Inr [''USD'' \<mapsto> \<lparr>rate = Some 1.1, state = Some ACCEPTED, confirmedRate = Some 1.1\<rparr>]"
  using reject_reverts_to_confirmed
    [of "\<lparr>currencyRates =
            [''USD'' \<mapsto> \<lparr>rate = Some (1.3::real), state = Some DIRTY, confirmedRate = Some 1.1\<rparr>],
          debounceRef = emptyDebounce, inflight = [(''USD'', 1.2)], clock = 0\<rparr>"
        "''USD''" "\<lparr>rate = Some 1.3, state = Some DIRTY, confirmedRate = Some 1.1\<rparr>"
        0 "1.2"]
  by simp

text \<open>
  C4, as the code has it. The provider does not refuse an edit for a key whose validation
  is pending; what keeps validations of one key apart is the table, whose input for a
  key is disabled while the entry is \<open>IN_PROGRESS\<close>. When every edit comes from an
  enabled input of the table, at most one validation request is outstanding for each key
  other than \<open>__proto__\<close> after any sequence of edits, timer firings and validation
  resolutions. (For the key \<open>__proto__\<close> the hook stores no handle, so its timeouts are
  never cancelled and each of them starts a call.)
\<close>

theorem one_validation_outstanding_from_table:
  assumes "cid \<noteq> ''__proto__''"
    and "fromTable (initSys icr) es" and "run (initSys icr) es = Inr s"
  shows "outstanding s cid \<le> 1"
proof -
  have "sys_inv s"
    using sys_inv_initial assms(2,3) by (rule sys_inv_run)
  with assms(1) show ?thesis
    unfolding sys_inv_def by blast
qed

theorem one_validation_outstanding_from_table_witness:
  "''USD'' \<noteq> ''__proto__'' \<and>
   fromTable (initSys [''USD'' \<mapsto> 1.1::real])
     [Edit ''USD'' 1.2, Advance 300, TimerFires 1, ValidationResolves 0 True,
      Edit ''USD'' 1.3, Advance 300, TimerFires 2] \<and>
   map_sum id (\<lambda>s. outstanding s ''USD'' \<le> 1)
     (run (initSys [''USD'' \<mapsto> 1.1::real])
        [Edit ''USD'' 1.2, Advance 300, TimerFires 1, ValidationResolves 0 True,
         Edit ''USD'' 1.3, Advance 300, TimerFires 2]) = Inr True"
proof -
  let ?es = "[Edit ''USD'' 1.2, Advance 300, TimerFires 1, ValidationResolves 0 True,
      Edit ''USD'' (1.3::real), Advance 300, TimerFires 2]"
  have key: "''USD'' \<noteq> ''__proto__''"
    by simp
  have ft: "fromTable (initSys [''USD'' \<mapsto> 1.1::real]) ?es"
    by (simp add: provider_defs inputEnabled_def isDisabled_def)
  have "\<exists>s. run (initSys [''USD'' \<mapsto> 1.1::real]) ?es = Inr s"
    by (simp add: provider_defs)
  then obtain s where s: "run (initSys [''USD'' \<mapsto> 1.1::real]) ?es = Inr s" ..
  from one_validation_outstanding_from_table [OF key ft s] s ft
  show ?thesis by simp
qed

text \<open>
  What is not an edit from the table: an edit for an id the map has no row for, and an
  edit for a key whose validation is pending.
\<close>

lemma not_fromTable:
  "\<not> fromTable (initSys [''USD'' \<mapsto> 1.1::real]) [Edit ''EUR'' 1.5] \<and>
   \<not> fromTable (initSys [''USD'' \<mapsto> 1.1::real])
       [Edit ''USD'' 1.2, Advance 300, TimerFires 1, Edit ''USD'' 1.3]"
  by (simp add: provider_defs inputEnabled_def isDisabled_def)

text \<open>
  Why the key \<open>__proto__\<close> is left out: with that key in the map, two edits from its
  enabled row leave two timeouts pending, and both fire.
\<close>

lemma proto_row_overlaps:
  "fromTable (initSys [''__proto__'' \<mapsto> 1.1::real])
     [Edit ''__proto__'' 1.2, Advance 100, Edit ''__proto__'' 1.3, Advance 300,
      TimerFires 1, TimerFires 2] \<and>
   map_sum id inflight
     (run (initSys [''__proto__'' \<mapsto> 1.1::real])
        [Edit ''__proto__'' 1.2, Advance 100, Edit ''__proto__'' 1.3, Advance 300,
         TimerFires 1, TimerFires 2])
     = Inr [(''__proto__'', 1.2), (''__proto__'', 1.3)]"
  by (simp add: provider_defs inputEnabled_def isDisabled_def)

text \<open>
  C4 as the spec states it, for every interleaving of edits, timer firings and
  resolutions, fails at the provider: an edit dispatched while a validation is pending
  schedules a timeout, and when that fires before the first call resolves, two calls for
  the key are in flight.
\<close>

theorem overlapping_validations_counterexample:
  "map_sum id inflight
     (run (initSys [''USD'' \<mapsto> 1.1::real])
        [Edit ''USD'' 1.2, Advance 300, TimerFires 1,
         Edit ''USD'' 1.3, Advance 300, TimerFires 2])
     = Inr [(''USD'', 1.2), (''USD'', 1.3)] \<and>
   map_sum id (\<lambda>s. outstanding s ''USD'')
     (run (initSys [''USD'' \<mapsto> 1.1::real])
        [Edit ''USD'' 1.2, Advance 300, TimerFires 1,
         Edit ''USD'' 1.3, Advance 300, TimerFires 2])
     = Inr 2"
  by (simp add: provider_defs)

text \<open>
  C5, as the code has it. An edit for an id that is not a key does not throw: it adds an
  entry for the id with the new rate, the status DIRTY and no confirmed rate. An action
  that succeeds leaves the key set as it was, with the action's id added; so the key set
  never shrinks, and it stays the same under every action whose id is a key already.
\<close>

theorem key_set_grows_by_unknown_id:
  "(cid \<notin> dom s \<longrightarrow>
      ratesReducer s (EditCurrencyRate cid r) =
        Inr (s(cid \<mapsto> \<lparr>rate = Some r, state = Some DIRTY, confirmedRate = None\<rparr>))) \<and>
   (\<forall>a s'. ratesReducer s a = Inr s' \<longrightarrow> dom s' = insert (target a) (dom s)) \<and>
   (\<forall>a. target a \<in> dom s \<longrightarrow> (\<exists>s'. ratesReducer s a = Inr s' \<and> dom s' = dom s))"
proof (intro conjI allI impI)
  assume "cid \<notin> dom s"
  then show "ratesReducer s (EditCurrencyRate cid r) =
        Inr (s(cid \<mapsto> \<lparr>rate = Some r, state = Some DIRTY, confirmedRate = None\<rparr>))"
    by (simp add: spread_def getEntry_def noProperties_def domIff)
next
  fix a s'
  assume "ratesReducer s a = Inr s'"
  then show "dom s' = insert (target a) (dom s)"
    by (rule ratesReducer_dom)
next
  fix a :: "'a RatesAction"
  assume k: "target a \<in> dom s"
  then obtain s' where s': "ratesReducer s a = Inr s'"
    by (cases a) (auto simp: Let_def)
  from ratesReducer_dom [OF s'] k have "dom s' = dom s" by auto
  with s' show "\<exists>s'. ratesReducer s a = Inr s' \<and> dom s' = dom s" by blast
qed

theorem key_set_grows_by_unknown_id_witness:
  "''EUR'' \<notin> dom (initialCurrencyRatesState [''USD'' \<mapsto> 1.1::real]) \<and>
   ratesReducer (initialCurrencyRatesState [''USD'' \<mapsto> 1.1::real])
       (EditCurrencyRate ''EUR'' 1.5)
     = Inr ((initialCurrencyRatesState [''USD'' \<mapsto> 1.1])
              (''EUR'' \<mapsto> \<lparr>rate = Some 1.5, state = Some DIRTY, confirmedRate = None\<rparr>)) \<and>
   ratesReducer (initialCurrencyRatesState [''USD'' \<mapsto> 1.1::real])
       (StartIsValidRequest ''EUR'')
     = Inr ((initialCurrencyRatesState [''USD'' \<mapsto> 1.1])
              (''EUR'' \<mapsto> \<lparr>rate = None, state = Some IN_PROGRESS, confirmedRate = None\<rparr>)) \<and>
   dom ((initialCurrencyRatesState [''USD'' \<mapsto> 1.1::real])
              (''EUR'' \<mapsto> \<lparr>rate = None, state = Some IN_PROGRESS, confirmedRate = None\<rparr>))
     = insert (target (StartIsValidRequest ''EUR'' :: real RatesAction))
         (dom (initialCurrencyRatesState [''USD'' \<mapsto> 1.1::real])) \<and>
   target (EditCurrencyRate ''USD'' (1.2::real))
     \<in> dom (initialCurrencyRatesState [''USD'' \<mapsto> 1.1::real]) \<and>
   (\<exists>s'. ratesReducer (initialCurrencyRatesState [''USD'' \<mapsto> 1.1::real])
            (EditCurrencyRate ''USD'' 1.2) = Inr s' \<and>
         dom s' = dom (initialCurrencyRatesState [''USD'' \<mapsto> 1.1::real]))"
proof -
  let ?s = "initialCurrencyRatesState [''USD'' \<mapsto> 1.1::real]"
  let ?new = "\<lparr>rate = Some (1.5::real), state = Some DIRTY, confirmedRate = None\<rparr>"
  let ?started = "\<lparr>rate = None :: real option, state = Some IN_PROGRESS, confirmedRate = None\<rparr>"
  note k = key_set_grows_by_unknown_id [of "''EUR''" ?s "1.5"]
  have unknown: "''EUR'' \<notin> dom ?s"
    by (simp add: initialCurrencyRatesState_def domIff)
  have known: "target (EditCurrencyRate ''USD'' (1.2::real)) \<in> dom ?s"
    by (simp add: initialCurrencyRatesState_def domIff)
  have started: "ratesReducer ?s (StartIsValidRequest ''EUR'') = Inr (?s(''EUR'' \<mapsto> ?started))"
    by (simp add: initialCurrencyRatesState_def spread_def getEntry_def noProperties_def)
  from k unknown have "ratesReducer ?s (EditCurrencyRate ''EUR'' 1.5) = Inr (?s(''EUR'' \<mapsto> ?new))"
    by blast
  moreover from k started
  have "dom (?s(''EUR'' \<mapsto> ?started))
          = insert (target (StartIsValidRequest ''EUR'' :: real RatesAction)) (dom ?s)"
    by blast
  moreover from k known
  have "\<exists>s'. ratesReducer ?s (EditCurrencyRate ''USD'' 1.2) = Inr s' \<and> dom s' = dom ?s"
    by blast
  ultimately show ?thesis
    using unknown known started by blast
qed

text \<open>
  C5 as the spec states it fails: from a map whose only key is USD, an edit for EUR
  returns a map with the keys USD and EUR.
\<close>

theorem unknown_id_edit_counterexample:
  "ratesReducer (initialCurrencyRatesState [''USD'' \<mapsto> 1.1::real])
       (EditCurrencyRate ''EUR'' 1.5)
     = Inr ((initialCurrencyRatesState [''USD'' \<mapsto> 1.1])
              (''EUR'' \<mapsto> \<lparr>rate = Some 1.5, state = Some DIRTY, confirmedRate = None\<rparr>)) \<and>
   dom (initialCurrencyRatesState [''USD'' \<mapsto> 1.1::real]) = {''USD''} \<and>
   dom ((initialCurrencyRatesState [''USD'' \<mapsto> 1.1::real])
              (''EUR'' \<mapsto> \<lparr>rate = Some 1.5, state = Some DIRTY, confirmedRate = None\<rparr>))
     = {''EUR'', ''USD''}"
  by (auto simp: initialCurrencyRatesState_def spread_def getEntry_def noProperties_def dom_def split: if_splits)

text \<open>
  C6. For a known id, the edit action sets the entry's rate to the new value and its
  status to DIRTY and leaves its confirmed rate as it was. Whenever an action changes
  the confirmed rate seen for a key, the action is an \<open>IsValidResult\<close> for that key:
  neither an edit nor a \<open>StartIsValidRequest\<close> changes any confirmed rate.
\<close>

theorem edit_sets_rate_and_dirty:
  assumes "s cid = Some e"
  shows "ratesReducer s (EditCurrencyRate cid r) =
           Inr (s(cid \<mapsto> e\<lparr>rate := Some r, state := Some DIRTY\<rparr>)) \<and>
         confirmedRate (e\<lparr>rate := Some r, state := Some DIRTY\<rparr>) = confirmedRate e \<and>
         (\<forall>a s' k. ratesReducer s a = Inr s' \<longrightarrow>
            confirmedRateOf s' k \<noteq> confirmedRateOf s k \<longrightarrow> (\<exists>b. a = IsValidResult k b))"
proof (intro conjI allI impI)
  show "ratesReducer s (EditCurrencyRate cid r) =
           Inr (s(cid \<mapsto> e\<lparr>rate := Some r, state := Some DIRTY\<rparr>))"
    using assms by (simp add: spread_def getEntry_def noProperties_def)
next
  show "confirmedRate (e\<lparr>rate := Some r, state := Some DIRTY\<rparr>) = confirmedRate e"
    by simp
next
  fix a s' k
  assume r: "ratesReducer s a = Inr s'" and ne: "confirmedRateOf s' k \<noteq> confirmedRateOf s k"
  from ratesReducer_keeps_confirmed [OF r, of k] ne obtain c b where a: "a = IsValidResult c b"
    by blast
  have "c = k"
  proof (rule ccontr)
    assume "c \<noteq> k"
    with ratesReducer_frame [OF r, of k] a have "s' k = s k" by simp
    with ne show False by (simp add: confirmedRateOf_def)
  qed
  with a show "\<exists>b. a = IsValidResult k b" by simp
qed

theorem edit_sets_rate_and_dirty_witness:
  "[''USD'' \<mapsto> \<lparr>rate = Some (1.2::real), state = Some DIRTY, confirmedRate = Some 1.1\<rparr>] ''USD''
     = Some \<lparr>rate = Some 1.2, state = Some DIRTY, confirmedRate = Some 1.1\<rparr> \<and>
   ratesReducer
       [''USD'' \<mapsto> \<lparr>rate = Some (1.2::real), state = Some DIRTY, confirmedRate = Some 1.1\<rparr>]
       (EditCurrencyRate ''USD'' 1.3)
     = Inr [''USD'' \<mapsto> \<lparr>rate = Some 1.3, state = Some DIRTY, confirmedRate = Some 1.1\<rparr>] \<and>
   ratesReducer
       [''USD'' \<mapsto> \<lparr>rate = Some (1.2::real), state = Some DIRTY, confirmedRate = Some 1.1\<rparr>]
       (IsValidResult ''USD'' True)
     = Inr [''USD'' \<mapsto> \<lparr>rate = Some 1.2, state = Some ACCEPTED, confirmedRate = Some 1.2\<rparr>] \<and>
   confirmedRateOf
       [''USD'' \<mapsto> \<lparr>rate = Some (1.2::real), state = Some ACCEPTED, confirmedRate = Some 1.2\<rparr>]
       ''USD''
     \<noteq> confirmedRateOf
       [''USD'' \<mapsto> \<lparr>rate = Some (1.2::real), state = Some DIRTY, confirmedRate = Some 1.1\<rparr>]
       ''USD'' \<and>
   (\<exists>b. IsValidResult ''USD'' True = (IsValidResult ''USD'' b :: real RatesAction))"
  using edit_sets_rate_and_dirty
    [of "[''USD'' \<mapsto> \<lparr>rate = Some (1.2::real), state = Some DIRTY, confirmedRate = Some 1.1\<rparr>]"
        "''USD''" "\<lparr>rate = Some 1.2, state = Some DIRTY, confirmedRate = Some 1.1\<rparr>" "1.3"]
  by (auto simp: confirmedRateOf_def spread_def getEntry_def noProperties_def Let_def)




text \<open>
  C8. The order total is the sum, added from the left starting at 0 and taken over every
  order of the map in enumeration order, of \<open>getBaseCurrencyPrice\<close> applied to the
  order's price and to the confirmed rate of the order's currency; there is no total,
  but a TypeError, when the read of some order's currency in the rate map gives
  \<open>undefined\<close>. The total reads no raw rate: an edit or a \<open>StartIsValidRequest\<close> for a
  known currency leaves it as it was. With a \<open>getBaseCurrencyPrice\<close> that multiplies
  price and rate, one order of price 10 in USD and a confirmed USD rate of 2 give the
  total 20; with a second order of price 5 in EUR and a confirmed EUR rate of 3 the
  total is 35.
\<close>

theorem order_total_reads_confirmedRate:
  "OrderTotal g orders rs =
     (if list_all (\<lambda>ord. getEntry rs (currency ord) \<noteq> None) (map snd orders)
      then Inr (foldl (\<lambda>a b. a + b) 0
                  (map (\<lambda>ord. g (price ord) (confirmedRateOf rs (currency ord)))
                     (map snd orders)))
      else Inl TypeError) \<and>
   (\<forall>a rs'. \<not> (\<exists>cid b. a = IsValidResult cid b) \<longrightarrow> target a \<in> dom rs \<longrightarrow>
        ratesReducer rs a = Inr rs' \<longrightarrow>
        OrderTotal g orders rs' = OrderTotal g orders rs) \<and>
   (\<forall>h oid t rs1. (\<forall>p r. h p (Some r) = getBaseCurrencyPrice p r) \<longrightarrow>
        confirmedRateOf rs1 ''USD'' = Some 2 \<longrightarrow>
        OrderTotal h [(oid, \<lparr>orderId = oid, title = t, price = 10, currency = ''USD''\<rparr>)] rs1
          = Inr (20::real)) \<and>
   (\<forall>h oid t oid' t' rs1. (\<forall>p r. h p (Some r) = getBaseCurrencyPrice p r) \<longrightarrow>
        confirmedRateOf rs1 ''USD'' = Some 2 \<longrightarrow>
        confirmedRateOf rs1 ''EUR'' = Some 3 \<longrightarrow>
        OrderTotal h
          [(oid, \<lparr>orderId = oid, title = t, price = 10, currency = ''USD''\<rparr>),
           (oid', \<lparr>orderId = oid', title = t', price = 5, currency = ''EUR''\<rparr>)] rs1
          = Inr (35::real))"
proof (intro conjI allI impI)
  show "OrderTotal g orders rs =
     (if list_all (\<lambda>ord. getEntry rs (currency ord) \<noteq> None) (map snd orders)
      then Inr (foldl (\<lambda>a b. a + b) 0
                  (map (\<lambda>ord. g (price ord) (confirmedRateOf rs (currency ord)))
                     (map snd orders)))
      else Inl TypeError)"
    by (simp add: OrderTotal_def Object_values_def basePrices_eq)
next
  fix a rs'
  assume a: "\<not> (\<exists>cid b. a = IsValidResult cid b)" and k: "target a \<in> dom rs"
    and r: "ratesReducer rs a = Inr rs'"
  from ratesReducer_dom [OF r] k have "dom rs' = dom rs" by auto
  then have "(getEntry rs' k = None) = (getEntry rs k = None)" for k
    by (simp add: getEntry_None_iff)
  moreover have "confirmedRateOf rs' k = confirmedRateOf rs k" for k
    using r a by (rule ratesReducer_keeps_confirmed)
  ultimately have "basePrices g rs' (Object_values orders) =
             basePrices g rs (Object_values orders)"
    by (rule basePrices_cong)
  then show "OrderTotal g orders rs' = OrderTotal g orders rs"
    by (simp add: OrderTotal_def)
next
  fix h :: "real \<Rightarrow> real option \<Rightarrow> real" and oid t and rs1 :: "real rates"
  assume h: "\<forall>p r. h p (Some r) = getBaseCurrencyPrice p r"
    and c: "confirmedRateOf rs1 ''USD'' = Some 2"
  from c obtain e where "rs1 ''USD'' = Some e" "confirmedRate e = Some 2"
    by (auto simp: confirmedRateOf_def split: option.splits)
  then show "OrderTotal h [(oid, \<lparr>orderId = oid, title = t, price = 10, currency = ''USD''\<rparr>)] rs1
               = Inr (20::real)"
    using h by (simp add: OrderTotal_def Object_values_def getBaseCurrencyPrice_def)
next
  fix h :: "real \<Rightarrow> real option \<Rightarrow> real" and oid t oid' t' and rs1 :: "real rates"
  assume h: "\<forall>p r. h p (Some r) = getBaseCurrencyPrice p r"
    and c: "confirmedRateOf rs1 ''USD'' = Some 2"
    and c': "confirmedRateOf rs1 ''EUR'' = Some 3"
  from c obtain e where e: "rs1 ''USD'' = Some e" "confirmedRate e = Some 2"
    by (auto simp: confirmedRateOf_def split: option.splits)
  from c' obtain e' where e': "rs1 ''EUR'' = Some e'" "confirmedRate e' = Some 3"
    by (auto simp: confirmedRateOf_def split: option.splits)
  from e e' h show "OrderTotal h
          [(oid, \<lparr>orderId = oid, title = t, price = 10, currency = ''USD''\<rparr>),
           (oid', \<lparr>orderId = oid', title = t', price = 5, currency = ''EUR''\<rparr>)] rs1
          = Inr (35::real)"
    by (simp add: OrderTotal_def Object_values_def getBaseCurrencyPrice_def)
qed

theorem order_total_reads_confirmedRate_witness:
  "target (EditCurrencyRate ''USD'' (5::real))
     \<in> dom [''USD'' \<mapsto> \<lparr>rate = Some (3::real), state = Some DIRTY, confirmedRate = Some 2\<rparr>,
            ''EUR'' \<mapsto> \<lparr>rate = Some 3, state = Some ACCEPTED, confirmedRate = Some 3\<rparr>] \<and>
   ratesReducer
       [''USD'' \<mapsto> \<lparr>rate = Some (3::real), state = Some DIRTY, confirmedRate = Some 2\<rparr>,
        ''EUR'' \<mapsto> \<lparr>rate = Some 3, state = Some ACCEPTED, confirmedRate = Some 3\<rparr>]
       (EditCurrencyRate ''USD'' 5)
     = Inr [''USD'' \<mapsto> \<lparr>rate = Some (3::real), state = Some DIRTY, confirmedRate = Some 2\<rparr>,
            ''EUR'' \<mapsto> \<lparr>rate = Some 3, state = Some ACCEPTED, confirmedRate = Some 3\<rparr>,
            ''USD'' \<mapsto> \<lparr>rate = Some 5, state = Some DIRTY, confirmedRate = Some 2\<rparr>] \<and>
   OrderTotal (\<lambda>p r. case r of None \<Rightarrow> 0 | Some x \<Rightarrow> getBaseCurrencyPrice p x)
     [(''o1'', \<lparr>orderId = ''o1'', title = ''Book'', price = 10::real, currency = ''USD''\<rparr>),
      (''o2'', \<lparr>orderId = ''o2'', title = ''Pen'', price = 5, currency = ''EUR''\<rparr>)]
     [''USD'' \<mapsto> \<lparr>rate = Some (3::real), state = Some DIRTY, confirmedRate = Some 2\<rparr>,
      ''EUR'' \<mapsto> \<lparr>rate = Some 3, state = Some ACCEPTED, confirmedRate = Some 3\<rparr>]
     = Inr 35 \<and>
   OrderTotal (\<lambda>p r. case r of None \<Rightarrow> 0 | Some x \<Rightarrow> getBaseCurrencyPrice p x)
     [(''o1'', \<lparr>orderId = ''o1'', title = ''Book'', price = 10::real, currency = ''USD''\<rparr>),
      (''o2'', \<lparr>orderId = ''o2'', title = ''Pen'', price = 5, currency = ''EUR''\<rparr>)]
     [''USD'' \<mapsto> \<lparr>rate = Some (3::real), state = Some DIRTY, confirmedRate = Some 2\<rparr>,
      ''EUR'' \<mapsto> \<lparr>rate = Some 3, state = Some ACCEPTED, confirmedRate = Some 3\<rparr>,
      ''USD'' \<mapsto> \<lparr>rate = Some 5, state = Some DIRTY, confirmedRate = Some 2\<rparr>]
     = Inr 35"
proof -
  let ?g = "\<lambda>p r. case r of None \<Rightarrow> 0 | Some x \<Rightarrow> getBaseCurrencyPrice (p::real) x"
  let ?orders =
    "[(''o1'', \<lparr>orderId = ''o1'', title = ''Book'', price = 10::real, currency = ''USD''\<rparr>),
      (''o2'', \<lparr>orderId = ''o2'', title = ''Pen'', price = 5, currency = ''EUR''\<rparr>)]"
  let ?rs = "[''USD'' \<mapsto> \<lparr>rate = Some (3::real), state = Some DIRTY, confirmedRate = Some 2\<rparr>,
              ''EUR'' \<mapsto> \<lparr>rate = Some 3, state = Some ACCEPTED, confirmedRate = Some 3\<rparr>]"
  let ?rs' = "?rs(''USD'' \<mapsto> \<lparr>rate = Some 5, state = Some DIRTY, confirmedRate = Some 2\<rparr>)"
  note t = order_total_reads_confirmedRate [of ?g ?orders ?rs]
  have known: "target (EditCurrencyRate ''USD'' (5::real)) \<in> dom ?rs"
    by simp
  have edit: "ratesReducer ?rs (EditCurrencyRate ''USD'' 5) = Inr ?rs'"
    by simp
  have agrees: "\<forall>p r. ?g p (Some r) = getBaseCurrencyPrice p r"
    by simp
  have conf: "confirmedRateOf ?rs ''USD'' = Some 2" "confirmedRateOf ?rs ''EUR'' = Some 3"
    by (simp_all add: confirmedRateOf_def)
  from t have "\<forall>h oid t oid' t' rs1. (\<forall>p r. h p (Some r) = getBaseCurrencyPrice p r) \<longrightarrow>
        confirmedRateOf rs1 ''USD'' = Some 2 \<longrightarrow>
        confirmedRateOf rs1 ''EUR'' = Some 3 \<longrightarrow>
        OrderTotal h
          [(oid, \<lparr>orderId = oid, title = t, price = 10, currency = ''USD''\<rparr>),
           (oid', \<lparr>orderId = oid', title = t', price = 5, currency = ''EUR''\<rparr>)] rs1
          = Inr (35::real)"
    by (rule conjunct2 [THEN conjunct2, THEN conjunct2])
  then have "(\<forall>p r. ?g p (Some r) = getBaseCurrencyPrice p r) \<longrightarrow>
        confirmedRateOf ?rs ''USD'' = Some 2 \<longrightarrow> confirmedRateOf ?rs ''EUR'' = Some 3 \<longrightarrow>
        OrderTotal ?g ?orders ?rs = Inr 35"
    by (elim allE)
  with agrees conf have total: "OrderTotal ?g ?orders ?rs = Inr 35"
    by (elim impE)
  from t have "\<forall>a rs'. \<not> (\<exists>cid b. a = IsValidResult cid b) \<longrightarrow> target a \<in> dom ?rs \<longrightarrow>
        ratesReducer ?rs a = Inr rs' \<longrightarrow> OrderTotal ?g ?orders rs' = OrderTotal ?g ?orders ?rs"
    by (rule conjunct2 [THEN conjunct1])
  with known edit have "OrderTotal ?g ?orders ?rs' = OrderTotal ?g ?orders ?rs"
    by blast
  with total known edit show ?thesis by simp
qed

text \<open>
  C9. With \<open>NumberInput\<close> as the spec has it, a candidate value that is non-numeric or
  not finite is rejected before it reaches the provider: for every state and every id
  the change of the row's input leaves the state as it was, so no transition occurs and
  the entry's rate is not updated. A finite candidate is dispatched as an edit, and for
  a known id it sets the entry's rate to the value and its status to DIRTY.
\<close>

theorem invalid_input_is_rejected:
  "(\<forall>t. rowChange s cid (NonNumeric t) = Inr s) \<and>
   (\<forall>v. \<not> isFinite v \<longrightarrow> rowChange s cid (Numeric v) = Inr s) \<and>
   (\<forall>v. isFinite v \<longrightarrow>
        rowChange s cid (Numeric v) = effectDispatch s (EditCurrencyRate cid v)) \<and>
   (\<forall>v e. isFinite v \<longrightarrow> currencyRates s cid = Some e \<longrightarrow>
        (\<exists>s'. rowChange s cid (Numeric v) = Inr s' \<and>
              currencyRates s' cid = Some (e\<lparr>rate := Some v, state := Some DIRTY\<rparr>)))"
  by (simp add: rowChange_def NumberInput_def effectDispatch_def dispatch_def)

theorem invalid_input_is_rejected_witness:
  "isFinite NaN = False \<and>
   rowChange (initSys [''USD'' \<mapsto> Finite 1.1]) ''USD'' (Numeric NaN)
     = Inr (initSys [''USD'' \<mapsto> Finite 1.1]) \<and>
   isFinite PosInfinity = False \<and>
   rowChange (initSys [''USD'' \<mapsto> Finite 1.1]) ''USD'' (Numeric PosInfinity)
     = Inr (initSys [''USD'' \<mapsto> Finite 1.1]) \<and>
   isFinite (Finite 1.2) = True \<and>
   currencyRates (initSys [''USD'' \<mapsto> Finite 1.1]) ''USD''
     = Some \<lparr>rate = Some (Finite 1.1), state = Some ACCEPTED,
             confirmedRate = Some (Finite 1.1)\<rparr> \<and>
   map_sum id (\<lambda>s. currencyRates s ''USD'')
     (rowChange (initSys [''USD'' \<mapsto> Finite 1.1]) ''USD'' (Numeric (Finite 1.2)))
     = Inr (Some \<lparr>rate = Some (Finite 1.2), state = Some DIRTY,
                   confirmedRate = Some (Finite 1.1)\<rparr>)"
proof -
  let ?s = "initSys [''USD'' \<mapsto> Finite 1.1]"
  let ?e = "\<lparr>rate = Some (Finite 1.1), state = Some ACCEPTED,
             confirmedRate = Some (Finite 1.1)\<rparr>"
  note t = invalid_input_is_rejected [of ?s "''USD''"]
  have e: "currencyRates ?s ''USD'' = Some ?e"
    by (simp add: initSys_def initialCurrencyRatesState_def)
  from t have "\<forall>v. \<not> isFinite v \<longrightarrow> rowChange ?s ''USD'' (Numeric v) = Inr ?s"
    by (rule conjunct2 [THEN conjunct1])
  then have rejected: "rowChange ?s ''USD'' (Numeric NaN) = Inr ?s"
    "rowChange ?s ''USD'' (Numeric PosInfinity) = Inr ?s"
    by simp_all
  from t have "\<forall>v e. isFinite v \<longrightarrow> currencyRates ?s ''USD'' = Some e \<longrightarrow>
        (\<exists>s'. rowChange ?s ''USD'' (Numeric v) = Inr s' \<and>
              currencyRates s' ''USD'' = Some (e\<lparr>rate := Some v, state := Some DIRTY\<rparr>))"
    by (rule conjunct2 [THEN conjunct2, THEN conjunct2])
  with e have "\<exists>s'. rowChange ?s ''USD'' (Numeric (Finite 1.2)) = Inr s' \<and>
      currencyRates s' ''USD'' = Some (?e\<lparr>rate := Some (Finite 1.2), state := Some DIRTY\<rparr>)"
    by simp
  then have "map_sum id (\<lambda>s. currencyRates s ''USD'')
     (rowChange ?s ''USD'' (Numeric (Finite 1.2)))
     = Inr (Some \<lparr>rate = Some (Finite 1.2), state = Some DIRTY,
                   confirmedRate = Some (Finite 1.1)\<rparr>)"
    by auto
  with rejected e show ?thesis by simp
qed

text \<open>
  The rejection is the input's alone. The provider checks nothing about the value of an
  edit it is given: for a known id any number, finite or not, becomes the entry's rate.
\<close>

lemma provider_applies_any_number:
  fixes v :: number
  assumes "currencyRates s cid = Some e"
  shows "\<exists>s'. step s (Edit cid v) = Inr s' \<and>
           currencyRates s' cid = Some (e\<lparr>rate := Some v, state := Some DIRTY\<rparr>)"
  using assms by (simp add: effectDispatch_def dispatch_def)

text \<open>
  C10. Whatever the action, the state the reducer returns maps every key other than the
  action's id to the entry it had before.
\<close>

theorem reducer_changes_only_its_target:
  assumes "ratesReducer s a = Inr s'" and "k \<noteq> target a"
  shows "s' k = s k"
  using assms by (rule ratesReducer_frame)

theorem reducer_changes_only_its_target_witness:
  "ratesReducer (initialCurrencyRatesState [''USD'' \<mapsto> 1.1::real, ''EUR'' \<mapsto> 0.9])
       (IsValidResult ''USD'' False)
     = Inr ((initialCurrencyRatesState [''USD'' \<mapsto> 1.1, ''EUR'' \<mapsto> 0.9])
              (''USD'' \<mapsto> \<lparr>rate = Some 1.1, state = Some ACCEPTED, confirmedRate = Some 1.1\<rparr>)) \<and>
   ''EUR'' \<noteq> target (IsValidResult ''USD'' False :: real RatesAction) \<and>
   ((initialCurrencyRatesState [''USD'' \<mapsto> 1.1::real, ''EUR'' \<mapsto> 0.9])
      (''USD'' \<mapsto> \<lparr>rate = Some 1.1, state = Some ACCEPTED, confirmedRate = Some 1.1\<rparr>)) ''EUR''
     = initialCurrencyRatesState [''USD'' \<mapsto> 1.1::real, ''EUR'' \<mapsto> 0.9] ''EUR''"
  using reducer_changes_only_its_target
    [of "initialCurrencyRatesState [''USD'' \<mapsto> 1.1::real, ''EUR'' \<mapsto> 0.9]"
        "IsValidResult ''USD'' False"
        "(initialCurrencyRatesState [''USD'' \<mapsto> 1.1, ''EUR'' \<mapsto> 0.9])
           (''USD'' \<mapsto> \<lparr>rate = Some 1.1, state = Some ACCEPTED, confirmedRate = Some 1.1\<rparr>)"
        "''EUR''"]
  by (simp add: initialCurrencyRatesState_def Let_def)

end
